theory Spec2Isabelle
  imports Main "HOL-Library.AList" "HOL-Library.Sublist"
begin

section \<open>Strings\<close>

text \<open>
  A JavaScript string is a sequence of UTF-16 code units. The model writes a string as a
  \<^typ>\<open>string\<close>, one \<^typ>\<open>char\<close> per code unit, and so covers the code units below
  256 (ASCII and Latin-1); \<open>length\<close> is the \<open>.length\<close> of the source.

  \<open>toLowerCase\<close> maps \<open>A..Z\<close> and the Latin-1 capitals to their small letters and
  leaves every other code unit as it is. \<open>trim\<close> removes white space and line
  terminators from both ends: TAB, LF, VT, FF, CR, SP and NBSP in this range.
\<close>

definition lower_char :: "char \<Rightarrow> char" where
  "lower_char c =
     (let n = (of_char c :: nat)
      in if (65 \<le> n \<and> n \<le> 90) \<or> (192 \<le> n \<and> n \<le> 222 \<and> n \<noteq> 215)
         then char_of (n + 32) else c)"

definition toLowerCase :: "string \<Rightarrow> string" where
  "toLowerCase s = map lower_char s"

definition is_space :: "char \<Rightarrow> bool" where
  "is_space c \<longleftrightarrow> (of_char c :: nat) \<in> {9, 10, 11, 12, 13, 32, 160}"

definition trim :: "string \<Rightarrow> string" where
  "trim s = rev (dropWhile is_space (rev (dropWhile is_space s)))"

text \<open>The two key tests of the source: \<^verbatim>\<open>k.toLowerCase() === 'title'\<close> and
  \<^verbatim>\<open>k.toLowerCase() === 'displayname'\<close>.\<close>

definition is_title :: "string \<Rightarrow> bool" where
  "is_title k \<longleftrightarrow> toLowerCase k = ''title''"

definition is_displayname :: "string \<Rightarrow> bool" where
  "is_displayname k \<longleftrightarrow> toLowerCase k = ''displayname''"

section \<open>JSON values and the display-name index\<close>

text \<open>
  \<^verbatim>\<open>type JsonValue = JsonPrimitive | JsonObject | JsonArray\<close>. Numbers are leaves that
  no operation inspects, so their carrier is a type parameter. An object is the list of
  its own properties in the order \<^verbatim>\<open>Object.keys\<close> enumerates them; the keys of a
  JavaScript object are distinct.
\<close>

datatype 'n json =
    JNull
  | JBool bool
  | JNum 'n
  | JStr string
  | JArr "'n json list"
  | JObj "(string \<times> 'n json) list"

type_synonym 'n JsonObject = "(string \<times> 'n json) list"

record DisplayName =
  title :: string
  displayName :: string

text \<open>\<^verbatim>\<open>type DisplayNamesObject = { [title: string]: DisplayName }\<close>: a lookup gives an
  entry or \<^verbatim>\<open>undefined\<close>, as the declared type says.\<close>

type_synonym DisplayNamesObject = "string \<rightharpoonup> DisplayName"

text \<open>\<^verbatim>\<open>Object.keys(obj).find((k) => k.toLowerCase() === 'title')\<close> and its sibling
  for \<^verbatim>\<open>'displayname'\<close>: the first matching key in enumeration order.\<close>

definition titleKey_of :: "(string \<times> 'v) list \<Rightarrow> string option" where
  "titleKey_of obj = find is_title (map fst obj)"

definition displayNameKey_of :: "(string \<times> 'v) list \<Rightarrow> string option" where
  "displayNameKey_of obj = find is_displayname (map fst obj)"

text \<open>\<^verbatim>\<open>key && typeof obj[key] === 'string'\<close>, giving the string \<^verbatim>\<open>obj[key]\<close>.\<close>

fun string_at :: "'n JsonObject \<Rightarrow> string option \<Rightarrow> string option" where
  "string_at obj None = None"
| "string_at obj (Some k) = (case map_of obj k of Some (JStr s) \<Rightarrow> Some s | _ \<Rightarrow> None)"

section \<open>The extractor\<close>

text \<open>\<^verbatim>\<open>extractDisplayNames(value)\<close> writes into the global \<^verbatim>\<open>displayNames\<close>; the model
  takes the index and returns the updated one.\<close>

fun extractDisplayNames :: "'n json \<Rightarrow> DisplayNamesObject \<Rightarrow> DisplayNamesObject" where
  "extractDisplayNames (JArr xs) dn = fold extractDisplayNames xs dn"
| "extractDisplayNames (JObj obj) dn =
     (let dn1 =
        (case (string_at obj (titleKey_of obj), string_at obj (displayNameKey_of obj)) of
           (Some t, Some d) \<Rightarrow> dn(t \<mapsto> \<lparr>title = t, displayName = d\<rparr>)
         | _ \<Rightarrow> dn)
      in fold extractDisplayNames (map snd obj) dn1)"
| "extractDisplayNames v dn = dn"




section \<open>The page state\<close>

text \<open>The reactive variables \<^verbatim>\<open>parsedJson\<close> (\<^verbatim>\<open>null\<close> before the first successful
  parse) and \<^verbatim>\<open>displayNames\<close>. The text buffer and the editor element are display
  only and are left out.\<close>

record 'n state =
  parsedJson :: "'n json option"
  displayNames :: DisplayNamesObject

text \<open>\<^verbatim>\<open>typeof v === 'object'\<close> holds of objects, arrays and \<^verbatim>\<open>null\<close>;
  \<^verbatim>\<open>if (v)\<close> fails on \<^verbatim>\<open>null\<close>, \<^verbatim>\<open>false\<close>, \<^verbatim>\<open>0\<close> and the empty string.\<close>

fun typeof_object :: "'n json \<Rightarrow> bool" where
  "typeof_object JNull = True"
| "typeof_object (JArr xs) = True"
| "typeof_object (JObj obj) = True"
| "typeof_object v = False"

fun truthy :: "('n::zero) json \<Rightarrow> bool" where
  "truthy JNull = False"
| "truthy (JBool b) = b"
| "truthy (JNum n) = (n \<noteq> 0)"
| "truthy (JStr s) = (s \<noteq> [])"
| "truthy v = True"

section \<open>The synchronizer\<close>

text \<open>The inner function \<^verbatim>\<open>updateJson\<close> of \<^verbatim>\<open>updateDisplayName\<close>, which rewrites
  the tree in place; the tree has no shared nodes, so the model returns the rewritten
  tree.\<close>

fun updateJson :: "string \<Rightarrow> string \<Rightarrow> 'n json \<Rightarrow> 'n json" where
  "updateJson oldValue newValue (JArr xs) = JArr (map (updateJson oldValue newValue) xs)"
| "updateJson oldValue newValue (JObj obj) =
     JObj (map (\<lambda>(key, v).
                  if is_displayname key \<and> v = JStr oldValue then (key, JStr newValue)
                  else if typeof_object v then (key, updateJson oldValue newValue v)
                  else (key, v)) obj)"
| "updateJson oldValue newValue v = v"

definition updateDisplayName :: "string \<Rightarrow> string \<Rightarrow> 'n state \<Rightarrow> 'n state" where
  "updateDisplayName ttl newValue s =
     (case displayNames s ttl of
        None \<Rightarrow> s
      | Some e \<Rightarrow>
          let oldValue = displayName e
          in s\<lparr>displayNames := (displayNames s)(ttl \<mapsto> e\<lparr>displayName := newValue\<rparr>),
               parsedJson := map_option (updateJson oldValue newValue) (parsedJson s)\<rparr>)"

section \<open>Parsing\<close>

text \<open>\<^verbatim>\<open>JSON.parse\<close> is the platform's parser and a parameter of the model: it gives
  the parsed value, or \<open>None\<close> where it throws a \<^verbatim>\<open>SyntaxError\<close>. The \<^verbatim>\<open>catch\<close>
  branch of \<^verbatim>\<open>parseJson\<close> only logs.\<close>

definition parseJson :: "(string \<Rightarrow> 'n json option) \<Rightarrow> string \<Rightarrow> 'n state \<Rightarrow> 'n state" where
  "parseJson JSON_parse input s =
     (case JSON_parse input of
        None \<Rightarrow> s
      | Some parsed \<Rightarrow>
          s\<lparr>parsedJson := Some parsed,
            displayNames := extractDisplayNames parsed Map.empty\<rparr>)"

section \<open>The gap filler\<close>

text \<open>The part of \<^verbatim>\<open>addMissingDisplayNames\<close> that works on the copied object itself,
  before its properties are visited. \<^verbatim>\<open>obj[k] = v\<close> is \<^const>\<open>AList.update\<close>: it
  replaces the value of an existing key in place and appends a new key at the end.\<close>

definition fill_own ::
  "'n JsonObject \<Rightarrow> DisplayNamesObject \<Rightarrow> 'n JsonObject \<times> DisplayNamesObject" where
  "fill_own obj dn =
     (case (if displayNameKey_of obj = None then string_at obj (titleKey_of obj) else None) of
        Some s \<Rightarrow>
          (let ttl = trim s
           in case dn ttl of
                Some e \<Rightarrow> (AList.update ''displayName'' (JStr (trim (displayName e))) obj, dn)
              | None \<Rightarrow>
                  (AList.update ''displayName'' (JStr ttl) obj,
                   dn(ttl \<mapsto> \<lparr>title = ttl, displayName = ttl\<rparr>)))
      | None \<Rightarrow>
          (case string_at obj (displayNameKey_of obj) of
             Some d \<Rightarrow> (AList.update (the (displayNameKey_of obj)) (JStr (trim d)) obj, dn)
           | None \<Rightarrow> (obj, dn)))"

text \<open>\<^verbatim>\<open>addMissingDisplayNames(value)\<close> returns the new tree and writes into the global
  \<^verbatim>\<open>displayNames\<close>; the model threads the index through the traversal. The two
  loops rebuild the array and the object left to right.\<close>

function addMissingDisplayNames ::
  "'n json \<Rightarrow> DisplayNamesObject \<Rightarrow> 'n json \<times> DisplayNamesObject" where
  "addMissingDisplayNames (JArr xs) dn =
     (let (ys, dn') =
        fold (\<lambda>item (acc, d). let (item', d') = addMissingDisplayNames item d
                                 in (acc @ [item'], d')) xs ([], dn)
      in (JArr ys, dn'))"
| "addMissingDisplayNames (JObj value) dn =
     (let (obj, dn1) = fill_own value dn;
          (obj', dn') =
            fold (\<lambda>(key, v) (acc, d). let (v', d') = addMissingDisplayNames v d
                                       in (acc @ [(key, v')], d')) obj ([], dn1)
      in (JObj obj', dn'))"
| "addMissingDisplayNames JNull dn = (JNull, dn)"
| "addMissingDisplayNames (JBool b) dn = (JBool b, dn)"
| "addMissingDisplayNames (JNum n) dn = (JNum n, dn)"
| "addMissingDisplayNames (JStr s) dn = (JStr s, dn)"
  by pat_completeness auto

termination addMissingDisplayNames
proof (relation "measure (\<lambda>(v, dn). size v)", goal_cases)
  case 1
  show ?case by simp
next
  case (2 xs dn x acc d)
  then have "size x \<le> size_list size xs"
    by (induction xs) auto
  then show ?case by simp
next
  case (3 val dn own obj dn1 kv key v acc d)
  have upd: "set (AList.update k w al) \<subseteq> insert (k, w) (set al)"
    for k and w :: "'a json" and al
    by (induction al) auto
  have own: "fill_own val dn = (obj, dn1)" and kv: "(key, v) \<in> set obj"
    using 3 by simp_all
  have "val \<noteq> []" if "obj \<noteq> val"
    using own that
    by (auto simp: fill_own_def titleKey_of_def displayNameKey_of_def split: option.splits)
  moreover have "(key, v) \<in> set val \<or> (\<exists>s. v = JStr s)"
    using own kv upd
    by (fastforce simp: fill_own_def Let_def split: option.splits if_splits)
  moreover have "size v < Suc (size_list (size_prod (\<lambda>x. 0) size) val)"
    if "(key, v) \<in> set val"
  proof -
    have "size_prod (\<lambda>x. 0) size (key, v) \<le> size_list (size_prod (\<lambda>x. 0) size) val"
      using that by (induction val) auto
    then show ?thesis by simp
  qed
  moreover have "0 < size_list (size_prod (\<lambda>x. 0) size) val" if "val \<noteq> []"
    using that by (cases val) auto
  ultimately show ?case
    using kv by (cases "obj = val") auto
qed

text \<open>The second copy of \<^verbatim>\<open>addMissingDisplayNames\<close> in the sources (the older page):
  the same traversal without any \<^verbatim>\<open>trim\<close> and without the branch that normalizes an
  existing display name.\<close>

definition fill_own2 ::
  "'n JsonObject \<Rightarrow> DisplayNamesObject \<Rightarrow> 'n JsonObject \<times> DisplayNamesObject" where
  "fill_own2 obj dn =
     (case (if displayNameKey_of obj = None then string_at obj (titleKey_of obj) else None) of
        Some ttl \<Rightarrow>
          (case dn ttl of
             Some e \<Rightarrow> (AList.update ''displayName'' (JStr (displayName e)) obj, dn)
           | None \<Rightarrow>
               (AList.update ''displayName'' (JStr ttl) obj,
                dn(ttl \<mapsto> \<lparr>title = ttl, displayName = ttl\<rparr>)))
      | None \<Rightarrow> (obj, dn))"

function addMissingDisplayNames2 ::
  "'n json \<Rightarrow> DisplayNamesObject \<Rightarrow> 'n json \<times> DisplayNamesObject" where
  "addMissingDisplayNames2 (JArr xs) dn =
     (let (ys, dn') =
        fold (\<lambda>item (acc, d). let (item', d') = addMissingDisplayNames2 item d
                                 in (acc @ [item'], d')) xs ([], dn)
      in (JArr ys, dn'))"
| "addMissingDisplayNames2 (JObj value) dn =
     (let (obj, dn1) = fill_own2 value dn;
          (obj', dn') =
            fold (\<lambda>(key, v) (acc, d). let (v', d') = addMissingDisplayNames2 v d
                                       in (acc @ [(key, v')], d')) obj ([], dn1)
      in (JObj obj', dn'))"
| "addMissingDisplayNames2 JNull dn = (JNull, dn)"
| "addMissingDisplayNames2 (JBool b) dn = (JBool b, dn)"
| "addMissingDisplayNames2 (JNum n) dn = (JNum n, dn)"
| "addMissingDisplayNames2 (JStr s) dn = (JStr s, dn)"
  by pat_completeness auto

termination addMissingDisplayNames2
proof (relation "measure (\<lambda>(v, dn). size v)", goal_cases)
  case 1
  show ?case by simp
next
  case (2 xs dn x acc d)
  then have "size x \<le> size_list size xs"
    by (induction xs) auto
  then show ?case by simp
next
  case (3 val dn own obj dn1 kv key v acc d)
  have upd: "set (AList.update k w al) \<subseteq> insert (k, w) (set al)"
    for k and w :: "'a json" and al
    by (induction al) auto
  have own: "fill_own2 val dn = (obj, dn1)" and kv: "(key, v) \<in> set obj"
    using 3 by simp_all
  have "val \<noteq> []" if "obj \<noteq> val"
    using own that
    by (auto simp: fill_own2_def titleKey_of_def displayNameKey_of_def split: option.splits)
  moreover have "(key, v) \<in> set val \<or> (\<exists>s. v = JStr s)"
    using own kv upd
    by (fastforce simp: fill_own2_def split: option.splits if_splits)
  moreover have "size v < Suc (size_list (size_prod (\<lambda>x. 0) size) val)"
    if "(key, v) \<in> set val"
  proof -
    have "size_prod (\<lambda>x. 0) size (key, v) \<le> size_list (size_prod (\<lambda>x. 0) size) val"
      using that by (induction val) auto
    then show ?thesis by simp
  qed
  moreover have "0 < size_list (size_prod (\<lambda>x. 0) size) val" if "val \<noteq> []"
    using that by (cases val) auto
  ultimately show ?case
    using kv by (cases "obj = val") auto
qed

text \<open>\<^verbatim>\<open>handleAddMissingDisplayNames\<close>: the gap filler runs on the current tree, then the
  index is cleared and extracted again from the new tree.\<close>

definition handleAddMissingDisplayNames :: "('n::zero) state \<Rightarrow> 'n state" where
  "handleAddMissingDisplayNames s =
     (case parsedJson s of
        None \<Rightarrow> s
      | Some root \<Rightarrow>
          if truthy root
          then (let (root', dn') = addMissingDisplayNames root (displayNames s)
                in s\<lparr>parsedJson := Some root',
                     displayNames := extractDisplayNames root' Map.empty\<rparr>)
          else s)"

section \<open>Translation merge\<close>

text \<open>The reply of the translation endpoint, \<^verbatim>\<open>Record<string, string>\<close>, as the list of
  its properties.\<close>

type_synonym Translations = "(string \<times> string) list"

text \<open>\<^verbatim>\<open>extractTitles\<close>: the inner \<^verbatim>\<open>traverse\<close> adds to a \<^verbatim>\<open>Set\<close>, which keeps the
  order of first insertion.\<close>

definition set_add :: "string \<Rightarrow> string list \<Rightarrow> string list" where
  "set_add x xs = (if x \<in> set xs then xs else xs @ [x])"

fun collect_titles :: "'n json \<Rightarrow> string list \<Rightarrow> string list" where
  "collect_titles (JArr xs) titles = fold collect_titles xs titles"
| "collect_titles (JObj obj) titles =
     fold collect_titles (map snd obj)
       (case string_at obj (titleKey_of obj) of
          Some t \<Rightarrow> set_add t titles
        | None \<Rightarrow> titles)"
| "collect_titles v titles = titles"

definition extractTitles :: "'n json \<Rightarrow> string list" where
  "extractTitles obj = collect_titles obj []"

text \<open>The part of the inner \<^verbatim>\<open>traverse\<close> of \<^verbatim>\<open>updateJsonWithTranslations\<close> that works
  on the node itself. \<^verbatim>\<open>delete obj[k]\<close> is \<^const>\<open>AList.delete\<close>.\<close>

definition merge_own :: "Translations \<Rightarrow> 'n JsonObject \<Rightarrow> 'n JsonObject" where
  "merge_own tr obj =
     (let keys = map fst obj
      in case string_at obj (titleKey_of obj) of
           Some ttl \<Rightarrow>
             (case map_of tr ttl of
                Some translated \<Rightarrow>
                  AList.update ''displayName'' (JStr (trim translated))
                    (fold (\<lambda>k ob. if is_displayname k then AList.delete k ob else ob) keys obj)
              | None \<Rightarrow> obj)
         | None \<Rightarrow>
             (case string_at obj (displayNameKey_of obj) of
                Some d \<Rightarrow> AList.update (the (displayNameKey_of obj)) (JStr (trim d)) obj
              | None \<Rightarrow> obj))"

text \<open>The traversal works in place on a tree without shared nodes; the model returns the
  rewritten tree. The last loop runs over the keys read at the start and visits the
  values that are still there and have \<^verbatim>\<open>typeof\<close> \<^verbatim>\<open>'object'\<close>. An array goes through
  the same code: its keys are its indices, none of which is a title or displayname key.\<close>

function traverse :: "Translations \<Rightarrow> 'n json \<Rightarrow> 'n json" where
  "traverse tr (JArr xs) = JArr (map (\<lambda>v. if typeof_object v then traverse tr v else v) xs)"
| "traverse tr (JObj obj) =
     JObj (map (\<lambda>(key, v).
                  if key \<in> set (map fst obj) \<and> typeof_object v then (key, traverse tr v)
                  else (key, v)) (merge_own tr obj))"
| "traverse tr JNull = JNull"
| "traverse tr (JBool b) = JBool b"
| "traverse tr (JNum n) = JNum n"
| "traverse tr (JStr s) = JStr s"
  by pat_completeness auto

termination traverse
proof (relation "measure (\<lambda>(tr, v). size v)", goal_cases)
  case 1
  show ?case by simp
next
  case (2 tr xs x)
  then have "size x \<le> size_list size xs"
    by (induction xs) auto
  then show ?case by simp
next
  case (3 tr obj kv key v)
  have upd: "set (AList.update k w al) \<subseteq> insert (k, w) (set al)"
    for k and w :: "'a json" and al
    by (induction al) auto
  have del: "set (fold (\<lambda>k ob. if is_displayname k then AList.delete k ob else ob) ks al)
      \<subseteq> set al" for ks and al :: "'a JsonObject"
  proof (induction ks arbitrary: al)
    case Nil
    show ?case by simp
  next
    case (Cons k ks)
    have "set (AList.delete k al) \<subseteq> set al"
      by (auto simp: AList.delete_eq)
    with Cons [of al] Cons [of "AList.delete k al"] show ?case
      by (cases "is_displayname k") auto
  qed
  have "(key, v) \<in> set (merge_own tr obj)" and "typeof_object v"
    using 3 by simp_all
  then have "(key, v) \<in> set obj"
    using upd del
    by (fastforce simp: merge_own_def Let_def split: option.splits)
  then have "size_prod (\<lambda>x. 0) size (key, v) \<le> size_list (size_prod (\<lambda>x. 0) size) obj"
    by (induction obj) auto
  then show ?case by simp
qed

text \<open>\<^verbatim>\<open>updateJsonWithTranslations\<close> runs the traversal when \<^verbatim>\<open>parsedJson\<close> is truthy.\<close>

definition updateJsonWithTranslations :: "Translations \<Rightarrow> ('n::zero) state \<Rightarrow> 'n state" where
  "updateJsonWithTranslations tr s =
     (case parsedJson s of
        None \<Rightarrow> s
      | Some root \<Rightarrow> if truthy root then s\<lparr>parsedJson := Some (traverse tr root)\<rparr> else s)"

text \<open>\<^verbatim>\<open>translateDisplayNames\<close>. The request to \<^verbatim>\<open>/api/translate\<close> is a parameter: it
  gives the parsed reply when \<^verbatim>\<open>response.ok\<close>, and \<open>None\<close> otherwise. The loop over
  \<^verbatim>\<open>Object.entries(translations)\<close> writes the translated text into the entries the
  index already has.\<close>

definition patch_entry :: "string \<times> string \<Rightarrow> DisplayNamesObject \<Rightarrow> DisplayNamesObject" where
  "patch_entry p dn =
     (case dn (fst p) of
        Some e \<Rightarrow> dn(fst p \<mapsto> e\<lparr>displayName := snd p\<rparr>)
      | None \<Rightarrow> dn)"

definition translateDisplayNames ::
  "string \<Rightarrow> (string list \<Rightarrow> string \<Rightarrow> Translations option) \<Rightarrow> ('n::zero) state \<Rightarrow> 'n state" where
  "translateDisplayNames selectedLanguage fetch_translate s =
     (if selectedLanguage = [] then s
      else case parsedJson s of
             None \<Rightarrow> s
           | Some root \<Rightarrow>
               if \<not> truthy root \<or> \<not> typeof_object root then s
               else let titles = extractTitles root
                    in if titles = [] then s
                       else case fetch_translate titles selectedLanguage of
                              None \<Rightarrow> s
                            | Some tr \<Rightarrow>
                                updateJsonWithTranslations tr
                                  (s\<lparr>displayNames := fold patch_entry tr (displayNames s)\<rparr>))"

section \<open>The translation endpoint\<close>

text \<open>
  \<^verbatim>\<open>translateTitles\<close> of \<^verbatim>\<open>api/translate/+server.ts\<close>. The cache maps a title and a
  language to the stored text; a stored value can be \<^verbatim>\<open>undefined\<close> (\<open>None\<close>) when the
  provider returned fewer pieces than the batch had titles. \<^verbatim>\<open>translateText\<close> is the call
  to the provider and a parameter of the model: given the number of earlier calls, the
  text and the language it gives the translated text, or \<open>None\<close> when it throws.
\<close>

type_synonym TranslationCache = "string \<rightharpoonup> (string \<rightharpoonup> string option)"

datatype error = TranslationError

record tstate =
  translations' :: "string \<rightharpoonup> string option"
  updatedCache :: TranslationCache
  batch :: "string list"
  batchLength :: nat


text \<open>\<^verbatim>\<open>batch.join('||')\<close> and \<^verbatim>\<open>translatedBatch.split('||')\<close>.\<close>

fun join_sep :: "string list \<Rightarrow> string" where
  "join_sep [] = []"
| "join_sep [t] = t"
| "join_sep (t # ts) = t @ ''||'' @ join_sep ts"

fun split_from :: "string \<Rightarrow> string \<Rightarrow> string list" where
  "split_from cur [] = [cur]"
| "split_from cur [c] = [cur @ [c]]"
| "split_from cur (c # d # cs) =
     (if c = CHR ''|'' \<and> d = CHR ''|'' then cur # split_from [] cs
      else split_from (cur @ [c]) (d # cs))"

definition split_sep :: "string \<Rightarrow> string list" where
  "split_sep s = split_from [] s"

definition nth_opt :: "'a list \<Rightarrow> nat \<Rightarrow> 'a option" where
  "nth_opt xs i = (if i < length xs then Some (xs ! i) else None)"


definition store_translation ::
  "string \<Rightarrow> string list \<Rightarrow> string \<times> nat \<Rightarrow> tstate \<Rightarrow> tstate" where
  "store_translation targetLang translatedTitles p st =
     (let ttl = fst p; index = snd p;
          entry = (case updatedCache st ttl of None \<Rightarrow> Map.empty | Some m \<Rightarrow> m)
      in st\<lparr>translations' := (translations' st)(ttl \<mapsto> nth_opt translatedTitles index),
            updatedCache :=
              (updatedCache st)(ttl \<mapsto> entry(targetLang \<mapsto> nth_opt translatedTitles index))\<rparr>)"

text \<open>\<^verbatim>\<open>translateBatch\<close>. The second component of the result is the list of the batches
  handed to the provider so far; it grows also when the call throws.\<close>

definition translateBatch ::
  "(nat \<Rightarrow> string \<Rightarrow> string \<Rightarrow> string option) \<Rightarrow> string \<Rightarrow> string list \<Rightarrow> tstate \<Rightarrow>
     string list list \<Rightarrow> (error + tstate) \<times> string list list" where
  "translateBatch translateText targetLang batchToTranslate st sent =
     (let batchText = join_sep batchToTranslate
      in case translateText (length sent) batchText targetLang of
           None \<Rightarrow> (Inl TranslationError, sent @ [batchToTranslate])
         | Some translatedBatch \<Rightarrow>
             (let translatedTitles = split_sep translatedBatch
              in (Inr (fold (store_translation targetLang translatedTitles)
                         (zip batchToTranslate [0..<length batchToTranslate]) st),
                  sent @ [batchToTranslate])))"





section \<open>The writes of the extractor\<close>


section \<open>Positions in a tree\<close>

text \<open>A position is a path of object keys and array indices from the root.\<close>

datatype step = Key string | Index nat

fun value_at :: "'n json \<Rightarrow> step list \<Rightarrow> 'n json option" where
  "value_at v [] = Some v"
| "value_at (JObj obj) (Key k # p) =
     (case map_of obj k of None \<Rightarrow> None | Some v \<Rightarrow> value_at v p)"
| "value_at (JArr xs) (Index i # p) = (if i < length xs then value_at (xs ! i) p else None)"
| "value_at v (st # p) = None"

text \<open>A displayname field is a position whose last step is a key that matches
  \<open>displayname\<close>.\<close>

fun displayname_field :: "step list \<Rightarrow> bool" where
  "displayname_field [] = False"
| "displayname_field [Key k] = is_displayname k"
| "displayname_field [Index i] = False"
| "displayname_field (st # p) = displayname_field p"

text \<open>What a position holds, apart from the contents of a scalar: nothing, a scalar, an
  array of some length, or an object with some keys.\<close>

datatype kind = Absent | Scalar | Array nat | Object "string list"

fun kind_of :: "'n json option \<Rightarrow> kind" where
  "kind_of None = Absent"
| "kind_of (Some (JArr xs)) = Array (length xs)"
| "kind_of (Some (JObj obj)) = Object (map fst obj)"
| "kind_of (Some v) = Scalar"

fun is_scalar :: "'n json \<Rightarrow> bool" where
  "is_scalar (JArr xs) = False"
| "is_scalar (JObj obj) = False"
| "is_scalar v = True"

section \<open>The two loops of the gap filler, and its normal form\<close>

text \<open>The loops of \<^const>\<open>addMissingDisplayNames\<close> over the items of an array and over the
  properties of an object, by name.\<close>

definition amd_items :: "'n json list \<Rightarrow> DisplayNamesObject \<Rightarrow> 'n json list \<times> DisplayNamesObject" where
  "amd_items xs dn =
     fold (\<lambda>item (acc, d). let (item', d') = addMissingDisplayNames item d
                              in (acc @ [item'], d')) xs ([], dn)"

definition amd_fields :: "'n JsonObject \<Rightarrow> DisplayNamesObject \<Rightarrow> 'n JsonObject \<times> DisplayNamesObject" where
  "amd_fields obj dn =
     fold (\<lambda>(key, v) (acc, d). let (v', d') = addMissingDisplayNames v d
                                 in (acc @ [(key, v')], d')) obj ([], dn)"

text \<open>An object on which the gap filler has nothing to do: it has a displayname key, or
  no title key with a string value; and a display name that is a string is trimmed. A
  tree is filled when all its objects are.\<close>

definition own_filled :: "'n JsonObject \<Rightarrow> bool" where
  "own_filled obj =
     (case displayNameKey_of obj of
        None \<Rightarrow> string_at obj (titleKey_of obj) = None
      | Some dk \<Rightarrow> (case string_at obj (Some dk) of None \<Rightarrow> True | Some d \<Rightarrow> trim d = d))"

fun filled :: "'n json \<Rightarrow> bool" where
  "filled (JArr xs) = list_all filled xs"
| "filled (JObj obj) = (own_filled obj \<and> list_all filled (map snd obj))"
| "filled v = True"

section \<open>Batches within the budget\<close>



section \<open>The gap filler on a store\<close>

text \<open>
  To say that \<^verbatim>\<open>addMissingDisplayNames\<close> does not write into the value it is given, arrays
  and objects are cells of a store and a value is a scalar or a reference to a cell. The
  store is the list of the cells allocated so far; an allocation appends a cell, and
  \<^verbatim>\<open>{ ...value }\<close>, \<^verbatim>\<open>value.map\<close> and \<^verbatim>\<open>obj[key] = v\<close> are an allocation of a copy, an
  allocation of the new array, and a write into a cell.
\<close>

type_synonym addr = nat

datatype 'n val = VNull | VBool bool | VNum 'n | VStr string | VRef addr

datatype 'n cell = ArrCell "'n val list" | ObjCell "(string \<times> 'n val) list"

type_synonym 'n store = "'n cell list"

definition cell_at :: "'n store \<Rightarrow> addr \<Rightarrow> 'n cell option" where
  "cell_at h a = (if a < length h then Some (h ! a) else None)"





text \<open>A value represents a tree in a store, through cells at the addresses from \<open>lo\<close> on.
  The keys of an object cell are distinct.\<close>

fun repr :: "addr \<Rightarrow> 'n store \<Rightarrow> 'n val \<Rightarrow> 'n json \<Rightarrow> bool" where
  "repr lo h v JNull = (v = VNull)"
| "repr lo h v (JBool b) = (v = VBool b)"
| "repr lo h v (JNum x) = (v = VNum x)"
| "repr lo h v (JStr s) = (v = VStr s)"
| "repr lo h v (JArr ts) =
     (case v of
        VRef a \<Rightarrow>
          lo \<le> a \<and>
          (case cell_at h a of
             Some (ArrCell vs) \<Rightarrow> list_all2 (repr lo h) vs ts
           | _ \<Rightarrow> False)
      | _ \<Rightarrow> False)"
| "repr lo h v (JObj obj) =
     (case v of
        VRef a \<Rightarrow>
          lo \<le> a \<and>
          (case cell_at h a of
             Some (ObjCell ps) \<Rightarrow>
               distinct (map fst ps) \<and> map fst ps = map fst obj \<and>
               list_all2 (repr lo h) (map snd ps) (map snd obj)
           | _ \<Rightarrow> False)
      | _ \<Rightarrow> False)"





section \<open>Facts about strings and keys\<close>

lemma is_displayname_canonical: "is_displayname ''displayName''"
  by code_simp

lemma not_is_title_canonical: "\<not> is_title ''displayName''"
  by code_simp

lemma title_not_displayname: "is_title k \<Longrightarrow> \<not> is_displayname k"
  by (auto simp: is_title_def is_displayname_def)

lemma dropWhile_rev_keeps_head:
  assumes "dropWhile P u = u"
  shows "dropWhile P (rev (dropWhile P (rev u))) = rev (dropWhile P (rev u))"
proof (cases u)
  case Nil
  then show ?thesis by simp
next
  case (Cons x u')
  with assms have nx: "\<not> P x"
    by (metis dropWhile_eq_self_iff list.sel(1) list.distinct(1))
  have "\<exists>zs. dropWhile P (rev u) = zs @ [x]"
    using Cons nx by (simp add: dropWhile_append)
  then obtain zs where "dropWhile P (rev u) = zs @ [x]" ..
  with nx show ?thesis by simp
qed

lemma trim_idem: "trim (trim s) = trim s"
proof -
  have "dropWhile is_space (trim s) = trim s"
    unfolding trim_def by (rule dropWhile_rev_keeps_head) simp
  then show ?thesis
    by (simp add: trim_def)
qed

section \<open>The extractor: last write wins\<close>







section \<open>The synchronizer: what changes and what does not\<close>

lemma updateJson_scalar: "is_scalar v \<Longrightarrow> updateJson old new v = v"
  by (cases v) simp_all

lemma updateJson_not_object: "\<not> typeof_object v \<Longrightarrow> updateJson old new v = v"
  by (cases v) simp_all

lemma displayname_field_Cons: "p \<noteq> [] \<Longrightarrow> displayname_field (st # p) = displayname_field p"
  by (cases p; cases st) simp_all

lemma value_at_scalar: "is_scalar v \<Longrightarrow> p \<noteq> [] \<Longrightarrow> value_at v p = None"
  by (cases v; cases p) simp_all

lemma updateJson_field:
  "(if is_displayname key \<and> v = JStr old then (key, JStr new)
    else if typeof_object v then (key, updateJson old new v)
    else (key, v)) =
   (key, if is_displayname key \<and> v = JStr old then JStr new else updateJson old new v)"
  by (cases v) simp_all

lemma map_of_map_keyed:
  "map_of (map (\<lambda>(key, v). (key, f key v)) obj) k = map_option (f k) (map_of obj k)"
  by (induction obj) auto

lemma map_of_updateJson_fields:
  "map_of (map (\<lambda>(key, v).
                  if is_displayname key \<and> v = JStr old then (key, JStr new)
                  else if typeof_object v then (key, updateJson old new v)
                  else (key, v)) obj) k =
   map_option (\<lambda>v. if is_displayname k \<and> v = JStr old then JStr new else updateJson old new v)
     (map_of obj k)"
  by (simp only: updateJson_field map_of_map_keyed)

lemma value_at_updateJson:
  "value_at (updateJson old new v) p =
     map_option (\<lambda>w. if displayname_field p \<and> w = JStr old then JStr new
                      else updateJson old new w) (value_at v p)"
proof (induction p arbitrary: v)
  case Nil
  show ?case by simp
next
  case (Cons st p)
  show ?case
  proof (cases v)
    case (JObj obj)
    show ?thesis
    proof (cases st)
      case (Key k)
      show ?thesis
      proof (cases "map_of obj k")
        case None
        then show ?thesis
          using JObj Key by (simp add: map_of_updateJson_fields)
      next
        case (Some w)
        show ?thesis
        proof (cases "p = []")
          case True
          then show ?thesis
            using JObj Key Some by (simp add: map_of_updateJson_fields)
        next
          case False
          then show ?thesis
            using JObj Key Some Cons.IH [of w]
            by (simp add: map_of_updateJson_fields displayname_field_Cons value_at_scalar)
        qed
      qed
    next
      case (Index i)
      then show ?thesis using JObj by simp
    qed
  next
    case (JArr xs)
    show ?thesis
    proof (cases st)
      case (Key k)
      then show ?thesis using JArr by simp
    next
      case (Index i)
      show ?thesis
      proof (cases "p = []")
        case True
        then show ?thesis using JArr Index by simp
      next
        case False
        then show ?thesis
          using JArr Index Cons.IH [of "xs ! i"] by (simp add: displayname_field_Cons)
      qed
    qed
  qed simp_all
qed

lemma kind_of_updateJson: "kind_of (Some (updateJson old new v)) = kind_of (Some v)"
  by (cases v) (simp_all add: updateJson_field comp_def case_prod_unfold)

lemma kind_of_value_at_updateJson:
  "kind_of (value_at (updateJson old new v) p) = kind_of (value_at v p)"
proof (cases "value_at v p")
  case None
  then show ?thesis by (simp add: value_at_updateJson)
next
  case (Some w)
  then show ?thesis
    using kind_of_updateJson [of old new w] by (auto simp: value_at_updateJson)
qed

text \<open>
  Claim C2. When \<open>ttl\<close> is a key of the index with entry \<open>e\<close>, \<open>updateDisplayName\<close> sets the
  display name of that entry to the new value and leaves the other entries alone. In the
  tree, every displayname field that holds the old display name of \<open>e\<close> as a string now
  holds the new value, whatever title the node has; every other scalar of the tree is
  unchanged; and every position holds the same kind of value as before (no node is
  added or removed, objects keep their keys and arrays their length).
\<close>

theorem updateDisplayName_rewrites_matching_fields:
  assumes "displayNames s ttl = Some e" and "parsedJson s = Some root"
  shows "\<exists>root'. parsedJson (updateDisplayName ttl newValue s) = Some root'
    \<and> displayNames (updateDisplayName ttl newValue s) =
        (displayNames s)(ttl \<mapsto> e\<lparr>displayName := newValue\<rparr>)
    \<and> (\<forall>p. displayname_field p \<and> value_at root p = Some (JStr (displayName e))
           \<longrightarrow> value_at root' p = Some (JStr newValue))
    \<and> (\<forall>p v. value_at root p = Some v \<and> is_scalar v
             \<and> \<not> (displayname_field p \<and> v = JStr (displayName e))
           \<longrightarrow> value_at root' p = Some v)
    \<and> (\<forall>p. kind_of (value_at root' p) = kind_of (value_at root p))"
proof -
  let ?root' = "updateJson (displayName e) newValue root"
  have tree: "parsedJson (updateDisplayName ttl newValue s) = Some ?root'"
    using assms by (simp add: updateDisplayName_def)
  have index: "displayNames (updateDisplayName ttl newValue s) =
      (displayNames s)(ttl \<mapsto> e\<lparr>displayName := newValue\<rparr>)"
    using assms by (simp add: updateDisplayName_def)
  have changed: "value_at ?root' p = Some (JStr newValue)"
    if "displayname_field p \<and> value_at root p = Some (JStr (displayName e))" for p
    using that by (simp add: value_at_updateJson)
  have kept: "value_at ?root' p = Some v"
    if "value_at root p = Some v \<and> is_scalar v
        \<and> \<not> (displayname_field p \<and> v = JStr (displayName e))" for p v
    using that by (auto simp: value_at_updateJson updateJson_scalar)
  show ?thesis
    using tree index changed kept kind_of_value_at_updateJson by blast
qed

text \<open>Two nodes with the titles \<open>A\<close> and \<open>B\<close> share the display name \<open>X\<close>. Renaming the
  display name of \<open>A\<close> renames both fields; the field \<open>note\<close>, which holds the same
  string, and the titles stay as they are.\<close>

theorem updateDisplayName_rewrites_matching_fields_witness:
  "displayNames
     (\<lparr>parsedJson = Some (JArr [JObj [(''title'', JStr ''A''), (''displayName'', JStr ''X'')],
                              JObj [(''title'', JStr ''B''), (''DisplayName'', JStr ''X''),
                                    (''note'', JStr ''X'')]]),
       displayNames = [''A'' \<mapsto> \<lparr>title = ''A'', displayName = ''X''\<rparr>,
                       ''B'' \<mapsto> \<lparr>title = ''B'', displayName = ''X''\<rparr>]\<rparr> :: nat state) ''A''
     = Some \<lparr>title = ''A'', displayName = ''X''\<rparr>
   \<and> (\<exists>root'.
        parsedJson (updateDisplayName ''A'' ''Y''
          (\<lparr>parsedJson = Some (JArr [JObj [(''title'', JStr ''A''), (''displayName'', JStr ''X'')],
                              JObj [(''title'', JStr ''B''), (''DisplayName'', JStr ''X''),
                                    (''note'', JStr ''X'')]]),
            displayNames = [''A'' \<mapsto> \<lparr>title = ''A'', displayName = ''X''\<rparr>,
                       ''B'' \<mapsto> \<lparr>title = ''B'', displayName = ''X''\<rparr>]\<rparr> :: nat state))
          = Some root'
      \<and> value_at root' [Index 0, Key ''displayName''] = Some (JStr ''Y'')
      \<and> value_at root' [Index 1, Key ''DisplayName''] = Some (JStr ''Y'')
      \<and> value_at root' [Index 1, Key ''note''] = Some (JStr ''X'')
      \<and> value_at root' [Index 1, Key ''title''] = Some (JStr ''B''))"
  (is "displayNames ?s ''A'' = Some ?e \<and> (\<exists>root'. ?P root')")
proof -
  let ?root = "JArr [JObj [(''title'', JStr ''A''), (''displayName'', JStr ''X'')],
                     JObj [(''title'', JStr ''B''), (''DisplayName'', JStr ''X''),
                           (''note'', JStr ''X'')]] :: nat json"
  have h1: "displayNames ?s ''A'' = Some ?e" by simp
  have h2: "parsedJson ?s = Some ?root" by simp
  have k1: "is_displayname ''DisplayName''"
    by code_simp
  have k2: "\<not> is_displayname ''note''"
    by code_simp
  have k3: "\<not> is_displayname ''title''"
    by code_simp
  from updateDisplayName_rewrites_matching_fields [OF h1 h2, of "''Y''"]
  obtain root' where r: "parsedJson (updateDisplayName ''A'' ''Y'' ?s) = Some root'"
    and changed: "\<And>p. displayname_field p \<and> value_at ?root p = Some (JStr (displayName ?e))
           \<Longrightarrow> value_at root' p = Some (JStr ''Y'')"
    and kept: "\<And>p v. value_at ?root p = Some v \<and> is_scalar v
             \<and> \<not> (displayname_field p \<and> v = JStr (displayName ?e))
           \<Longrightarrow> value_at root' p = Some v"
    by blast
  have "value_at root' [Index 0, Key ''displayName''] = Some (JStr ''Y'')"
    by (rule changed) (simp add: is_displayname_canonical)
  moreover have "value_at root' [Index 1, Key ''DisplayName''] = Some (JStr ''Y'')"
    by (rule changed) (simp add: k1)
  moreover have "value_at root' [Index 1, Key ''note''] = Some (JStr ''X'')"
    by (rule kept) (simp add: k2)
  moreover have "value_at root' [Index 1, Key ''title''] = Some (JStr ''B'')"
    by (rule kept) (simp add: k3)
  ultimately have "?P root'"
    using r by simp
  with h1 show ?thesis by blast
qed



text \<open>
  Claim C8. When the parser rejects the input text, \<open>parseJson\<close> returns the state it was
  given: the tree and the index are those of the last successful parse.
\<close>

theorem parseJson_failure_keeps_state:
  "JSON_parse input = None \<Longrightarrow> parseJson JSON_parse input s = s"
  by (simp add: parseJson_def)

text \<open>A parser that accepts only the text \<open>null\<close>, run on a truncated object.\<close>

theorem parseJson_failure_keeps_state_witness:
  "(\<lambda>txt. if txt = ''null'' then Some (JNull :: nat json) else None) ''{title:'' = None
   \<and> parseJson (\<lambda>txt. if txt = ''null'' then Some JNull else None) ''{title:''
       (\<lparr>parsedJson = Some (JObj [(''title'', JStr ''A''), (''displayName'', JStr ''X'')]),
         displayNames = [''A'' \<mapsto> \<lparr>title = ''A'', displayName = ''X''\<rparr>]\<rparr> :: nat state)
     = \<lparr>parsedJson = Some (JObj [(''title'', JStr ''A''), (''displayName'', JStr ''X'')]),
        displayNames = [''A'' \<mapsto> \<lparr>title = ''A'', displayName = ''X''\<rparr>]\<rparr>"
  using parseJson_failure_keeps_state
    [of "\<lambda>txt. if txt = ''null'' then Some JNull else None" "''{title:''"
        "\<lparr>parsedJson = Some (JObj [(''title'', JStr ''A''), (''displayName'', JStr ''X'')]),
         displayNames = [''A'' \<mapsto> \<lparr>title = ''A'', displayName = ''X''\<rparr>]\<rparr> :: nat state"]
  by simp


section \<open>The gap filler\<close>

lemma amd_items_acc:
  "fold (\<lambda>item (acc, d). let (item', d') = addMissingDisplayNames item d
                           in (acc @ [item'], d')) xs (acc, dn) =
   (acc @ fst (amd_items xs dn), snd (amd_items xs dn))"
proof (induction xs arbitrary: acc dn)
  case Nil
  show ?case by (simp add: amd_items_def)
next
  case (Cons x xs)
  show ?case
    using Cons [of "acc @ [fst (addMissingDisplayNames x dn)]" "snd (addMissingDisplayNames x dn)"]
      Cons [of "[fst (addMissingDisplayNames x dn)]" "snd (addMissingDisplayNames x dn)"]
    by (simp add: amd_items_def case_prod_unfold Let_def)
qed

lemma amd_items_Nil: "amd_items [] dn = ([], dn)"
  by (simp add: amd_items_def)

lemma amd_items_Cons:
  "amd_items (x # xs) dn =
     (fst (addMissingDisplayNames x dn) # fst (amd_items xs (snd (addMissingDisplayNames x dn))),
      snd (amd_items xs (snd (addMissingDisplayNames x dn))))"
  using amd_items_acc [of xs "[fst (addMissingDisplayNames x dn)]" "snd (addMissingDisplayNames x dn)"]
  by (simp add: amd_items_def case_prod_unfold Let_def)

lemma amd_fields_acc:
  "fold (\<lambda>(key, v) (acc, d). let (v', d') = addMissingDisplayNames v d
                              in (acc @ [(key, v')], d')) obj (acc, dn) =
   (acc @ fst (amd_fields obj dn), snd (amd_fields obj dn))"
proof (induction obj arbitrary: acc dn)
  case Nil
  show ?case by (simp add: amd_fields_def)
next
  case (Cons kv obj)
  obtain key v where kv: "kv = (key, v)" by (cases kv)
  show ?case
    using Cons [of "acc @ [(key, fst (addMissingDisplayNames v dn))]" "snd (addMissingDisplayNames v dn)"]
      Cons [of "[(key, fst (addMissingDisplayNames v dn))]" "snd (addMissingDisplayNames v dn)"]
    by (simp add: amd_fields_def case_prod_unfold Let_def kv)
qed

lemma amd_fields_Nil: "amd_fields [] dn = ([], dn)"
  by (simp add: amd_fields_def)

lemma amd_fields_Cons:
  "amd_fields ((key, v) # obj) dn =
     ((key, fst (addMissingDisplayNames v dn)) # fst (amd_fields obj (snd (addMissingDisplayNames v dn))),
      snd (amd_fields obj (snd (addMissingDisplayNames v dn))))"
  using amd_fields_acc [of obj "[(key, fst (addMissingDisplayNames v dn))]" "snd (addMissingDisplayNames v dn)"]
  by (simp add: amd_fields_def case_prod_unfold Let_def)

lemma amd_JArr: "addMissingDisplayNames (JArr xs) dn = (JArr (fst (amd_items xs dn)), snd (amd_items xs dn))"
  by (simp add: amd_items_def case_prod_unfold Let_def)

lemma amd_JObj:
  "addMissingDisplayNames (JObj obj) dn =
     (JObj (fst (amd_fields (fst (fill_own obj dn)) (snd (fill_own obj dn)))),
      snd (amd_fields (fst (fill_own obj dn)) (snd (fill_own obj dn))))"
  by (simp add: amd_fields_def case_prod_unfold Let_def)

declare addMissingDisplayNames.simps(1,2) [simp del]

lemma amd_JStr_iff: "fst (addMissingDisplayNames v dn) = JStr s \<longleftrightarrow> v = JStr s"
  by (cases v) (auto simp: amd_JArr amd_JObj)

lemma amd_fields_keys: "map fst (fst (amd_fields obj dn)) = map fst obj"
proof (induction obj arbitrary: dn)
  case Nil
  show ?case by (simp add: amd_fields_Nil)
next
  case (Cons kv obj)
  then show ?case by (cases kv) (simp add: amd_fields_Cons)
qed

lemma amd_fields_string_at:
  "string_at (fst (amd_fields obj dn)) ko = string_at obj ko"
proof (cases ko)
  case None
  then show ?thesis by simp
next
  case (Some k)
  have "(case map_of (fst (amd_fields obj dn)) k of Some (JStr s) \<Rightarrow> Some s | _ \<Rightarrow> None) =
        (case map_of obj k of Some (JStr s) \<Rightarrow> Some s | _ \<Rightarrow> None)"
  proof (induction obj arbitrary: dn)
    case Nil
    show ?case by (simp add: amd_fields_Nil)
  next
    case (Cons kv obj)
    obtain key v where kv: "kv = (key, v)" by (cases kv)
    show ?case
    proof (cases "key = k")
      case True
      have "(case fst (addMissingDisplayNames v dn) of JStr s \<Rightarrow> Some s | _ \<Rightarrow> None) =
            (case v of JStr s \<Rightarrow> Some s | _ \<Rightarrow> None)"
        by (cases v) (simp_all add: amd_JArr amd_JObj)
      with True kv show ?thesis
        by (simp add: amd_fields_Cons)
    next
      case False
      with kv Cons show ?thesis
        by (simp add: amd_fields_Cons)
    qed
  qed
  with Some show ?thesis by simp
qed

lemma amd_fields_titleKey: "titleKey_of (fst (amd_fields obj dn)) = titleKey_of obj"
  by (simp add: titleKey_of_def amd_fields_keys)

lemma amd_fields_displayNameKey:
  "displayNameKey_of (fst (amd_fields obj dn)) = displayNameKey_of obj"
  by (simp add: displayNameKey_of_def amd_fields_keys)

lemma own_filled_amd_fields: "own_filled (fst (amd_fields obj dn)) = own_filled obj"
  by (simp only: own_filled_def amd_fields_titleKey amd_fields_displayNameKey
      amd_fields_string_at)

lemma find_Some_mem: "find P xs = Some x \<Longrightarrow> x \<in> set xs \<and> P x"
  by (induction xs) (auto split: if_splits)

lemma find_None_all: "find P xs = None \<Longrightarrow> x \<in> set xs \<Longrightarrow> \<not> P x"
  by (induction xs) (auto split: if_splits)

lemma find_append_new: "find P xs = None \<Longrightarrow> P x \<Longrightarrow> find P (xs @ [x]) = Some x"
  by (induction xs) (auto split: if_splits)

lemma find_append_old: "find P xs = Some y \<Longrightarrow> find P (xs @ ys) = Some y"
  by (induction xs) (auto split: if_splits)

text \<open>Without a displayname key, the assignment to \<open>displayName\<close> appends a property.\<close>

lemma update_displayName_appends:
  assumes "displayNameKey_of obj = None"
  shows "AList.update ''displayName'' w obj = obj @ [(''displayName'', w)]"
proof -
  have "''displayName'' \<notin> set (map fst obj)"
    using assms find_None_all [of is_displayname "map fst obj" "''displayName''"]
      is_displayname_canonical
    by (auto simp: displayNameKey_of_def)
  then show ?thesis
    by (induction obj) auto
qed

lemma map_of_append_new:
  "k \<notin> set (map fst obj) \<Longrightarrow> map_of (obj @ [(k, w)]) k = Some w"
  by (induction obj) auto

lemma map_of_append_old:
  "k \<noteq> k' \<Longrightarrow> map_of (obj @ [(k', w)]) k = map_of obj k"
  by (induction obj) auto

lemma string_at_append_old:
  "ko \<noteq> Some k' \<Longrightarrow> string_at (obj @ [(k', w)]) ko = string_at obj ko"
  by (cases ko) (simp_all add: map_of_append_old del: map_of_append)

lemma own_filled_appended:
  assumes "displayNameKey_of obj = None" and "trim x = x"
  shows "own_filled (obj @ [(''displayName'', JStr x)])"
proof -
  have notin: "''displayName'' \<notin> set (map fst obj)"
    using assms(1) find_None_all [of is_displayname "map fst obj" "''displayName''"]
      is_displayname_canonical
    by (auto simp: displayNameKey_of_def)
  have "displayNameKey_of (obj @ [(''displayName'', JStr x)]) = Some ''displayName''"
    using assms(1) find_append_new [of is_displayname "map fst obj" "''displayName''"]
      is_displayname_canonical
    by (simp add: displayNameKey_of_def)
  then show ?thesis
    using assms(2) notin by (simp add: own_filled_def map_of_append_new del: map_of_append)
qed

lemma own_filled_trimmed:
  assumes "displayNameKey_of obj = Some dk"
  shows "own_filled (AList.update dk (JStr (trim d)) obj)"
proof -
  have "dk \<in> set (map fst obj)"
    using assms find_Some_mem [of is_displayname "map fst obj" dk]
    by (simp add: displayNameKey_of_def)
  then have "map fst (AList.update dk (JStr (trim d)) obj) = map fst obj"
    by (simp add: update_keys)
  then have "displayNameKey_of (AList.update dk (JStr (trim d)) obj) = Some dk"
    using assms by (simp add: displayNameKey_of_def)
  then show ?thesis
    by (simp add: own_filled_def update_conv' trim_idem)
qed

lemma own_filled_fill_own: "own_filled (fst (fill_own obj dn))"
proof (cases "displayNameKey_of obj")
  case None
  show ?thesis
  proof (cases "string_at obj (titleKey_of obj)")
    case None
    with \<open>displayNameKey_of obj = None\<close> show ?thesis
      by (simp add: fill_own_def own_filled_def)
  next
    case (Some s)
    with \<open>displayNameKey_of obj = None\<close> show ?thesis
      by (auto simp: fill_own_def Let_def update_displayName_appends own_filled_appended
          trim_idem split: option.splits)
  qed
next
  case (Some dk)
  show ?thesis
  proof (cases "string_at obj (Some dk)")
    case None
    with Some show ?thesis
      by (simp add: fill_own_def own_filled_def)
  next
    case (Some d)
    with \<open>displayNameKey_of obj = Some dk\<close> show ?thesis
      by (simp add: fill_own_def own_filled_trimmed)
  qed
qed

lemma fill_own_filled: "own_filled obj \<Longrightarrow> fill_own obj dn = (obj, dn)"
proof (cases "displayNameKey_of obj")
  case None
  assume "own_filled obj"
  with None show ?thesis
    by (simp add: fill_own_def own_filled_def)
next
  case (Some dk)
  assume filled: "own_filled obj"
  show ?thesis
  proof (cases "string_at obj (Some dk)")
    case None
    with Some show ?thesis
      by (simp add: fill_own_def)
  next
    case (Some d)
    then have "map_of obj dk = Some (JStr d)"
      by (auto split: option.splits json.splits)
    then have "AList.update dk (JStr d) obj = obj"
      by (rule update_triv)
    moreover have "trim d = d"
      using filled Some \<open>displayNameKey_of obj = Some dk\<close> by (simp add: own_filled_def)
    ultimately show ?thesis
      using Some \<open>displayNameKey_of obj = Some dk\<close> by (simp add: fill_own_def)
  qed
qed

lemma amd_items_all:
  assumes "\<And>x d. x \<in> set xs \<Longrightarrow> P (fst (addMissingDisplayNames x d))"
  shows "list_all P (fst (amd_items xs dn))"
  using assms
proof (induction xs arbitrary: dn)
  case Nil
  show ?case by (simp add: amd_items_Nil)
next
  case (Cons x xs)
  then show ?case by (simp add: amd_items_Cons)
qed

lemma amd_fields_all:
  assumes "\<And>k v d. (k, v) \<in> set obj \<Longrightarrow> P (fst (addMissingDisplayNames v d))"
  shows "list_all P (map snd (fst (amd_fields obj dn)))"
  using assms
proof (induction obj arbitrary: dn)
  case Nil
  show ?case by (simp add: amd_fields_Nil)
next
  case (Cons kv obj)
  obtain key v where kv: "kv = (key, v)" by (cases kv)
  have "P (fst (addMissingDisplayNames v dn))"
    using Cons.prems [of key v dn] kv by simp
  moreover have "list_all P (map snd (fst (amd_fields obj (snd (addMissingDisplayNames v dn)))))"
  proof (rule Cons.IH)
    fix k w d
    assume "(k, w) \<in> set obj"
    then show "P (fst (addMissingDisplayNames w d))"
      using Cons.prems [of k w d] by simp
  qed
  ultimately show ?case
    unfolding kv by (simp add: amd_fields_Cons)
qed

text \<open>The result of the gap filler is filled.\<close>

lemma filled_amd: "filled (fst (addMissingDisplayNames v dn))"
proof (induction v dn rule: addMissingDisplayNames.induct)
  case (1 xs dn)
  then show ?case
    by (simp add: amd_JArr amd_items_all)
next
  case (2 obj dn)
  have IH: "filled (fst (addMissingDisplayNames v d))"
    if "(k, v) \<in> set (fst (fill_own obj dn))" for k v d
    by (rule "2.IH" [OF refl prod.collapse that refl])
  have "list_all filled
     (map snd (fst (amd_fields (fst (fill_own obj dn)) (snd (fill_own obj dn)))))"
    by (rule amd_fields_all) (rule IH)
  then show ?case
    by (simp add: amd_JObj own_filled_amd_fields own_filled_fill_own)
qed simp_all

lemma amd_items_id:
  assumes "\<And>x d. x \<in> set xs \<Longrightarrow> addMissingDisplayNames x d = (x, d)"
  shows "amd_items xs dn = (xs, dn)"
  using assms
  by (induction xs arbitrary: dn) (simp_all add: amd_items_Nil amd_items_Cons)

lemma amd_fields_id:
  assumes "\<And>k v d. (k, v) \<in> set obj \<Longrightarrow> addMissingDisplayNames v d = (v, d)"
  shows "amd_fields obj dn = (obj, dn)"
  using assms
proof (induction obj arbitrary: dn)
  case Nil
  show ?case by (simp add: amd_fields_Nil)
next
  case (Cons kv obj)
  obtain key v where kv: "kv = (key, v)" by (cases kv)
  have "addMissingDisplayNames v dn = (v, dn)"
    using Cons.prems [of key v dn] kv by simp
  moreover have "amd_fields obj dn = (obj, dn)"
  proof (rule Cons.IH)
    fix k w d
    assume "(k, w) \<in> set obj"
    then show "addMissingDisplayNames w d = (w, d)"
      using Cons.prems [of k w d] by simp
  qed
  ultimately show ?case
    unfolding kv by (simp add: amd_fields_Cons)
qed

text \<open>On a filled tree the gap filler changes neither the tree nor the index.\<close>

lemma amd_filled_id: "filled v \<Longrightarrow> addMissingDisplayNames v dn = (v, dn)"
proof (induction v dn rule: addMissingDisplayNames.induct)
  case (1 xs dn)
  then have "amd_items xs dn = (xs, dn)"
    by (intro amd_items_id) (auto simp: list_all_iff)
  then show ?case
    by (simp add: amd_JArr)
next
  case (2 obj dn)
  then have own: "fill_own obj dn = (obj, dn)"
    by (simp add: fill_own_filled)
  have "amd_fields obj dn = (obj, dn)"
  proof (rule amd_fields_id)
    fix k v d
    assume mem: "(k, v) \<in> set obj"
    then have "filled v"
      using "2.prems" by (auto simp: list_all_iff)
    moreover have "(k, v) \<in> set (fst (fill_own obj dn))"
      using mem own by simp
    ultimately show "addMissingDisplayNames v d = (v, d)"
      by (rule "2.IH" [OF refl prod.collapse _ refl, rotated])
  qed
  with own show ?case
    by (simp add: amd_JObj)
qed simp_all


lemma fill_own_keeps_entries: "dn t = Some e \<Longrightarrow> snd (fill_own obj dn) t = Some e"
  by (auto simp: fill_own_def Let_def split: option.splits)

lemma amd_items_keeps_entries:
  assumes "\<And>x d. x \<in> set xs \<Longrightarrow> d t = Some e \<Longrightarrow> snd (addMissingDisplayNames x d) t = Some e"
    and "dn t = Some e"
  shows "snd (amd_items xs dn) t = Some e"
  using assms
proof (induction xs arbitrary: dn)
  case Nil
  then show ?case by (simp add: amd_items_Nil)
next
  case (Cons x xs)
  have "snd (addMissingDisplayNames x dn) t = Some e"
    using Cons.prems by simp
  moreover have "snd (amd_items xs d) t = Some e" if "d t = Some e" for d
  proof (rule Cons.IH)
    fix y d'
    assume "y \<in> set xs" "d' t = Some e"
    then show "snd (addMissingDisplayNames y d') t = Some e"
      using Cons.prems(1) [of y d'] by simp
  qed (rule that)
  ultimately show ?case
    by (simp add: amd_items_Cons)
qed

lemma amd_fields_keeps_entries:
  assumes "\<And>k v d. (k, v) \<in> set obj \<Longrightarrow> d t = Some e \<Longrightarrow>
      snd (addMissingDisplayNames v d) t = Some e"
    and "dn t = Some e"
  shows "snd (amd_fields obj dn) t = Some e"
  using assms
proof (induction obj arbitrary: dn)
  case Nil
  then show ?case by (simp add: amd_fields_Nil)
next
  case (Cons kv obj)
  obtain key v where kv: "kv = (key, v)" by (cases kv)
  have "snd (addMissingDisplayNames v dn) t = Some e"
    using Cons.prems(1) [of key v dn] Cons.prems(2) kv by simp
  moreover have "snd (amd_fields obj d) t = Some e" if "d t = Some e" for d
  proof (rule Cons.IH)
    fix k w d'
    assume "(k, w) \<in> set obj" "d' t = Some e"
    then show "snd (addMissingDisplayNames w d') t = Some e"
      using Cons.prems(1) [of k w d'] by simp
  qed (rule that)
  ultimately show ?case
    unfolding kv by (simp add: amd_fields_Cons)
qed

text \<open>The gap filler never overwrites an entry of the index.\<close>

lemma amd_keeps_entries:
  "dn t = Some e \<Longrightarrow> snd (addMissingDisplayNames v dn) t = Some e"
proof (induction v dn rule: addMissingDisplayNames.induct)
  case (1 xs dn)
  have "snd (amd_items xs dn) t = Some e"
    by (rule amd_items_keeps_entries) (use 1 in auto)
  then show ?case
    by (simp add: amd_JArr)
next
  case (2 obj dn)
  have "snd (amd_fields (fst (fill_own obj dn)) (snd (fill_own obj dn))) t = Some e"
  proof (rule amd_fields_keeps_entries)
    fix k v d
    assume "(k, v) \<in> set (fst (fill_own obj dn))" and "d t = Some e"
    then show "snd (addMissingDisplayNames v d) t = Some e"
      by (rule "2.IH" [OF refl prod.collapse _ refl])
  next
    show "snd (fill_own obj dn) t = Some e"
      using "2.prems" by (rule fill_own_keeps_entries)
  qed
  then show ?case
    by (simp add: amd_JObj)
qed simp_all

lemma amd_fields_snoc_string:
  "amd_fields (obj @ [(k, JStr x)]) dn =
     (fst (amd_fields obj dn) @ [(k, JStr x)], snd (amd_fields obj dn))"
proof (induction obj arbitrary: dn)
  case Nil
  show ?case by (simp add: amd_fields_Nil amd_fields_Cons)
next
  case (Cons kv obj)
  obtain key v where kv: "kv = (key, v)" by (cases kv)
  show ?case
    unfolding kv by (simp add: amd_fields_Cons Cons)
qed

text \<open>
  The first copy of the gap filler at a node that has a title key with a string value \<open>s\<close>
  and no displayname key, for any index \<open>dn\<close> the traversal arrives with. The node
  keeps its properties, with their keys and strings, and gets one more property at the
  end, spelled \<open>displayName\<close>: the trimmed display name of the entry of \<open>trim s\<close> when the
  index has one, and \<open>trim s\<close> otherwise. Afterwards the index has the old entry of
  \<open>trim s\<close>, or the new entry with \<open>trim s\<close> as title and as display name.
\<close>

lemma addMissingDisplayNames_fills_node:
  assumes "displayNameKey_of obj = None" and "string_at obj (titleKey_of obj) = Some s"
  shows "\<exists>obj' dn'.
      addMissingDisplayNames (JObj obj) dn =
        (JObj (obj' @ [(''displayName'',
                        JStr (case dn (trim s) of
                                Some e \<Rightarrow> trim (displayName e)
                              | None \<Rightarrow> trim s))]), dn')
    \<and> map fst obj' = map fst obj
    \<and> (\<forall>ko. string_at obj' ko = string_at obj ko)
    \<and> dn' (trim s) =
        Some (case dn (trim s) of
                Some e \<Rightarrow> e
              | None \<Rightarrow> \<lparr>title = trim s, displayName = trim s\<rparr>)"
proof -
  let ?x = "case dn (trim s) of Some e \<Rightarrow> trim (displayName e) | None \<Rightarrow> trim s"
  let ?e = "case dn (trim s) of Some e \<Rightarrow> e | None \<Rightarrow> \<lparr>title = trim s, displayName = trim s\<rparr>"
  let ?dn1 = "snd (fill_own obj dn)"
  have own: "fst (fill_own obj dn) = obj @ [(''displayName'', JStr ?x)]"
    using assms
    by (auto simp: fill_own_def Let_def update_displayName_appends split: option.splits)
  have "?dn1 (trim s) = Some ?e"
    using assms by (auto simp: fill_own_def Let_def split: option.splits)
  then have "snd (amd_fields obj ?dn1) (trim s) = Some ?e"
    by (intro amd_fields_keeps_entries amd_keeps_entries)
  then show ?thesis
    by (simp add: amd_JObj own amd_fields_snoc_string amd_fields_keys amd_fields_string_at)
qed



text \<open>The example of the specification on the first copy: \<open>{"title": "Sun "}\<close> becomes
  \<open>{"title": "Sun ", "displayName": "Sun"}\<close>, and the index gets the entry of \<open>Sun\<close>.\<close>

lemma addMissingDisplayNames_fills_node_example:
  "fst (addMissingDisplayNames (JObj [(''title'', JStr ''Sun '')] :: nat json) Map.empty)
     = JObj [(''title'', JStr ''Sun ''), (''displayName'', JStr ''Sun'')]
   \<and> snd (addMissingDisplayNames (JObj [(''title'', JStr ''Sun '')] :: nat json) Map.empty) ''Sun''
     = Some \<lparr>title = ''Sun'', displayName = ''Sun''\<rparr>"
proof -
  let ?obj = "[(''title'', JStr ''Sun '')] :: nat JsonObject"
  have h1: "displayNameKey_of ?obj = None"
    by code_simp
  have h2: "string_at ?obj (titleKey_of ?obj) = Some ''Sun ''"
    by code_simp
  have t: "trim ''Sun '' = ''Sun''"
    by code_simp
  from addMissingDisplayNames_fills_node [OF h1 h2, of Map.empty]
  obtain obj' dn' where r: "addMissingDisplayNames (JObj ?obj) Map.empty =
        (JObj (obj' @ [(''displayName'', JStr ''Sun'')]), dn')"
    and keys: "map fst obj' = [''title'']"
    and strs: "\<And>ko. string_at obj' ko = string_at ?obj ko"
    and idx: "dn' ''Sun'' = Some \<lparr>title = ''Sun'', displayName = ''Sun''\<rparr>"
    unfolding t by auto
  from keys obtain v where obj': "obj' = [(''title'', v)]"
    by (cases obj') auto
  from strs [of "Some ''title''"] obj' have "v = JStr ''Sun ''"
    by (cases v) simp_all
  with r obj' idx show ?thesis by simp
qed

text \<open>
  Claim C6 on the second copy of the gap filler, which has no \<open>trim\<close>: from
  \<open>{"title": "Sun "}\<close> it writes the display name \<open>"Sun "\<close>, with the space, and the index
  gets an entry under \<open>"Sun "\<close> and none under \<open>"Sun"\<close>.
\<close>

theorem addMissingDisplayNames2_keeps_white_space:
  "fst (addMissingDisplayNames2 (JObj [(''title'', JStr ''Sun '')] :: nat json) Map.empty)
     = JObj [(''title'', JStr ''Sun ''), (''displayName'', JStr ''Sun '')]
   \<and> snd (addMissingDisplayNames2 (JObj [(''title'', JStr ''Sun '')] :: nat json) Map.empty)
        ''Sun '' = Some \<lparr>title = ''Sun '', displayName = ''Sun ''\<rparr>
   \<and> snd (addMissingDisplayNames2 (JObj [(''title'', JStr ''Sun '')] :: nat json) Map.empty)
        ''Sun'' = None"
  by code_simp

section \<open>The index after the gap filler and after a translation merge\<close>

text \<open>After \<open>handleAddMissingDisplayNames\<close> has run on a tree, the index is the result of
  the extractor on the new tree, from the empty index.\<close>

lemma handleAddMissingDisplayNames_rebuilds_index:
  assumes "parsedJson s = Some root" and "truthy root"
  shows "\<exists>root'. parsedJson (handleAddMissingDisplayNames s) = Some root'
    \<and> root' = fst (addMissingDisplayNames root (displayNames s))
    \<and> displayNames (handleAddMissingDisplayNames s) = extractDisplayNames root' Map.empty"
  using assms by (simp add: handleAddMissingDisplayNames_def case_prod_unfold Let_def)

lemma handleAddMissingDisplayNames_idempotent:
  "handleAddMissingDisplayNames (handleAddMissingDisplayNames s) = handleAddMissingDisplayNames s"
proof (cases "parsedJson s")
  case None
  then show ?thesis by (simp add: handleAddMissingDisplayNames_def)
next
  case (Some root)
  show ?thesis
  proof (cases "truthy root")
    case False
    with Some show ?thesis by (simp add: handleAddMissingDisplayNames_def)
  next
    case True
    have "truthy (fst (addMissingDisplayNames root dn))" for dn
      using True by (cases root) (simp_all add: amd_JArr amd_JObj)
    with Some True show ?thesis
      by (simp add: handleAddMissingDisplayNames_def case_prod_unfold Let_def
          amd_filled_id filled_amd)
  qed
qed

text \<open>
  Claim C5 on the translation merge. A node titled \<open>Home\<close> is translated with a reply that
  has white space around the text. The tree gets the trimmed text; the index is not
  extracted again but patched with the reply as it came, so it differs from what the
  extractor finds in the new tree. A later edit of the display name through the index
  then looks in the tree for the old value of the index and rewrites no field.
\<close>

theorem translateDisplayNames_index_not_extracted:
  "parsedJson (translateDisplayNames ''fr'' (\<lambda>titles lang. Some [(''Home'', ''  Accueil  '')])
       (\<lparr>parsedJson = Some (JObj [(''title'', JStr ''Home''), (''displayName'', JStr ''Home'')]),
         displayNames = [''Home'' \<mapsto> \<lparr>title = ''Home'', displayName = ''Home''\<rparr>]\<rparr> :: nat state))
     = Some (JObj [(''title'', JStr ''Home''), (''displayName'', JStr ''Accueil'')])
   \<and> displayNames (translateDisplayNames ''fr'' (\<lambda>titles lang. Some [(''Home'', ''  Accueil  '')])
       (\<lparr>parsedJson = Some (JObj [(''title'', JStr ''Home''), (''displayName'', JStr ''Home'')]),
         displayNames = [''Home'' \<mapsto> \<lparr>title = ''Home'', displayName = ''Home''\<rparr>]\<rparr> :: nat state))
       ''Home''
     = Some \<lparr>title = ''Home'', displayName = ''  Accueil  ''\<rparr>
   \<and> extractDisplayNames
       (JObj [(''title'', JStr ''Home''), (''displayName'', JStr ''Accueil'')] :: nat json)
       Map.empty ''Home''
     = Some \<lparr>title = ''Home'', displayName = ''Accueil''\<rparr>
   \<and> parsedJson (updateDisplayName ''Home'' ''Bonjour''
       (translateDisplayNames ''fr'' (\<lambda>titles lang. Some [(''Home'', ''  Accueil  '')])
         (\<lparr>parsedJson = Some (JObj [(''title'', JStr ''Home''), (''displayName'', JStr ''Home'')]),
           displayNames = [''Home'' \<mapsto> \<lparr>title = ''Home'', displayName = ''Home''\<rparr>]\<rparr>
          :: nat state)))
     = Some (JObj [(''title'', JStr ''Home''), (''displayName'', JStr ''Accueil'')])"
  by code_simp

text \<open>So the index after the translation merge is not the index the extractor gives on
  the new tree.\<close>

theorem translateDisplayNames_index_not_extracted_witness:
  "displayNames (translateDisplayNames ''fr'' (\<lambda>titles lang. Some [(''Home'', ''  Accueil  '')])
       (\<lparr>parsedJson = Some (JObj [(''title'', JStr ''Home''), (''displayName'', JStr ''Home'')]),
         displayNames = [''Home'' \<mapsto> \<lparr>title = ''Home'', displayName = ''Home''\<rparr>]\<rparr> :: nat state))
   \<noteq> extractDisplayNames
       (the (parsedJson (translateDisplayNames ''fr''
          (\<lambda>titles lang. Some [(''Home'', ''  Accueil  '')])
          (\<lparr>parsedJson = Some (JObj [(''title'', JStr ''Home''), (''displayName'', JStr ''Home'')]),
            displayNames = [''Home'' \<mapsto> \<lparr>title = ''Home'', displayName = ''Home''\<rparr>]\<rparr>
           :: nat state))))
       Map.empty"
proof
  assume "displayNames (translateDisplayNames ''fr'' (\<lambda>titles lang. Some [(''Home'', ''  Accueil  '')])
       (\<lparr>parsedJson = Some (JObj [(''title'', JStr ''Home''), (''displayName'', JStr ''Home'')]),
         displayNames = [''Home'' \<mapsto> \<lparr>title = ''Home'', displayName = ''Home''\<rparr>]\<rparr> :: nat state))
   = extractDisplayNames
       (the (parsedJson (translateDisplayNames ''fr''
          (\<lambda>titles lang. Some [(''Home'', ''  Accueil  '')])
          (\<lparr>parsedJson = Some (JObj [(''title'', JStr ''Home''), (''displayName'', JStr ''Home'')]),
            displayNames = [''Home'' \<mapsto> \<lparr>title = ''Home'', displayName = ''Home''\<rparr>]\<rparr>
           :: nat state))))
       Map.empty"
  then have "Some \<lparr>title = ''Home'', displayName = ''  Accueil  ''\<rparr> =
      Some \<lparr>title = ''Home'', displayName = ''Accueil''\<rparr>"
    using translateDisplayNames_index_not_extracted by (metis option.sel)
  then show False by simp
qed

text \<open>A node without a display name is translated: the tree gets the display name, the
  index gets no entry for it.\<close>

lemma translateDisplayNames_misses_new_entry:
  "parsedJson (translateDisplayNames ''fr'' (\<lambda>titles lang. Some [(''Home'', ''Accueil'')])
       (\<lparr>parsedJson = Some (JObj [(''title'', JStr ''Home'')]),
         displayNames = Map.empty\<rparr> :: nat state))
     = Some (JObj [(''title'', JStr ''Home''), (''displayName'', JStr ''Accueil'')])
   \<and> displayNames (translateDisplayNames ''fr'' (\<lambda>titles lang. Some [(''Home'', ''Accueil'')])
       (\<lparr>parsedJson = Some (JObj [(''title'', JStr ''Home'')]),
         displayNames = Map.empty\<rparr> :: nat state))
       ''Home''
     = None
   \<and> extractDisplayNames
       (JObj [(''title'', JStr ''Home''), (''displayName'', JStr ''Accueil'')] :: nat json)
       Map.empty ''Home''
     = Some \<lparr>title = ''Home'', displayName = ''Accueil''\<rparr>"
  by code_simp

section \<open>Translation merge at a node\<close>











declare traverse.simps(1,2) [simp del]





section \<open>The translation endpoint: batches\<close>


lemma fold_store_batch:
  "batch (fold (store_translation lang ts) ps st) = batch st
   \<and> batchLength (fold (store_translation lang ts) ps st) = batchLength st"
  by (induction ps arbitrary: st) (simp_all add: store_translation_def Let_def)


lemma translateBatch_batch:
  assumes "translateBatch api lang b st sent = (Inr st', sent')"
  shows "batch st' = batch st" and "batchLength st' = batchLength st"
  using assms fold_store_batch
  by (auto simp: translateBatch_def Let_def split: option.splits)























section \<open>The gap filler on a store: nothing that existed is written\<close>

lemma cell_at_append_old: "a < length h \<Longrightarrow> cell_at (h @ zs) a = cell_at h a"
  by (simp add: cell_at_def nth_append)

lemma cell_at_update_other: "a \<noteq> b \<Longrightarrow> cell_at (h[b := c]) a = cell_at h a"
  by (simp add: cell_at_def)

lemma cell_at_update_same: "b < length h \<Longrightarrow> cell_at (h[b := c]) b = Some c"
  by (simp add: cell_at_def)












lemma repr_VStr: "repr lo h (VStr s) t \<longleftrightarrow> t = JStr s"
  by (cases t) auto

lemma repr_JStr: "repr lo h v (JStr s) \<longleftrightarrow> v = VStr s"
  by simp




















end
